theory Spec2Isabelle
  imports Main "HOL-Library.Sublist" "HOL-Library.Multiset"
begin

section \<open>The modulee event bus: a shallow embedding of \<^verbatim>\<open>src/index.js\<close>\<close>

subsection \<open>JavaScript values that the code compares\<close>

text \<open>
  Two expressions of the source depend on JavaScript's dynamic typing: the filter of
  \<^verbatim>\<open>off\<close>, which compares the boolean \<^verbatim>\<open>!l.mask\<close> with a string, and the
  arithmetic of \<^verbatim>\<open>compareVersion\<close>, where \<^verbatim>\<open>parseInt\<close> may return \<^verbatim>\<open>NaN\<close>.
  The values that reach them are modelled by two small datatypes.

  \<^verbatim>\<open>!v\<close> is the negation of the truthiness of \<^verbatim>\<open>v\<close> (a string is truthy unless it
  is empty) and \<^verbatim>\<open>===\<close> is false whenever the types of its operands differ.
\<close>

datatype jsval = JBool bool | JStr string

fun truthy :: "jsval \<Rightarrow> bool" where
  "truthy (JBool b) = b"
| "truthy (JStr s) = (s \<noteq> [])"

definition js_not :: "jsval \<Rightarrow> jsval" where
  "js_not v = JBool (\<not> truthy v)"

fun strict_eq :: "jsval \<Rightarrow> jsval \<Rightarrow> bool" where
  "strict_eq (JBool a) (JBool b) = (a = b)"
| "strict_eq (JStr a) (JStr b) = (a = b)"
| "strict_eq _ _ = False"

text \<open>
  A Number is an IEEE double. The Numbers that \<^verbatim>\<open>parseInt\<close> returns are \<^verbatim>\<open>NaN\<close>, the
  two infinities, and the doubles whose value is an integer, which \<open>Num\<close> holds by their
  value. \<^verbatim>\<open>NaN !== x\<close> is true and \<^verbatim>\<open>NaN > x\<close>, \<^verbatim>\<open>x > NaN\<close> are false for every
  \<^verbatim>\<open>x\<close>.
\<close>

datatype number = NaN | Num int | PlusInfinity | MinusInfinity

fun strict_neq_num :: "number \<Rightarrow> number \<Rightarrow> bool" where
  "strict_neq_num NaN _ = True"
| "strict_neq_num _ NaN = True"
| "strict_neq_num a b = (a \<noteq> b)"

fun gt_num :: "number \<Rightarrow> number \<Rightarrow> bool" where
  "gt_num (Num a) (Num b) = (a > b)"
| "gt_num PlusInfinity (Num b) = True"
| "gt_num PlusInfinity MinusInfinity = True"
| "gt_num (Num a) MinusInfinity = True"
| "gt_num _ _ = False"

text \<open>
  The double nearest to an integer. Below \<open>2 ^ 53\<close> every integer is a double. Above,
  a double has 53 significant bits: with \<open>e\<close> the number of bits beyond 53, the integer
  is cut to a multiple \<open>q * 2 ^ e\<close> and the rest \<open>r\<close> decides the rounding, to the nearest
  multiple and to the even \<open>q\<close> in a tie. What reaches \<open>2 ^ 1024\<close> is infinite.
\<close>

fun bit_length :: "nat \<Rightarrow> nat" where
  "bit_length n = (if n = 0 then 0 else Suc (bit_length (n div 2)))"

declare bit_length.simps [simp del]

definition round_nat :: "nat \<Rightarrow> nat option" where
  "round_nat n =
     (if n < 2 ^ 53 then Some n
      else
        (let e = bit_length n - 53;
             q = n div 2 ^ e;
             r = n mod 2 ^ e;
             m = (if 2 * r > 2 ^ e \<or> (2 * r = 2 ^ e \<and> odd q) then q + 1 else q)
         in if m * 2 ^ e \<ge> 2 ^ 1024 then None else Some (m * 2 ^ e)))"

definition to_double :: "int \<Rightarrow> number" where
  "to_double z =
     (case round_nat (nat \<bar>z\<bar>) of
        None \<Rightarrow> if z < 0 then MinusInfinity else PlusInfinity
      | Some m \<Rightarrow> Num (if z < 0 then - int m else int m))"

subsection \<open>\<^verbatim>\<open>String.prototype.split\<close> and \<^verbatim>\<open>parseInt\<close>\<close>

text \<open>
  \<^verbatim>\<open>s.split('.')\<close> cuts \<^verbatim>\<open>s\<close> at every dot; the empty string gives one empty
  token, and two adjacent dots give an empty token between them.
\<close>

fun split_acc :: "char \<Rightarrow> string \<Rightarrow> string \<Rightarrow> string list" where
  "split_acc sep acc [] = [rev acc]"
| "split_acc sep acc (c # cs) =
     (if c = sep then rev acc # split_acc sep [] cs else split_acc sep (c # acc) cs)"

definition split :: "string \<Rightarrow> char \<Rightarrow> string list" where
  "split s sep = split_acc sep [] s"

definition is_digit :: "char \<Rightarrow> bool" where
  "is_digit c = (c \<in> set ''0123456789'')"

definition digit_val :: "char \<Rightarrow> int" where
  "digit_val c = of_char c - of_char CHR ''0''"

text \<open>
  The white space that \<^verbatim>\<open>parseInt\<close> skips: TAB, LF, VT, FF, CR, SP and NBSP (the
  code units below 256 of the language's \<^verbatim>\<open>WhiteSpace\<close> and \<^verbatim>\<open>LineTerminator\<close>).
\<close>

definition is_white :: "char \<Rightarrow> bool" where
  "is_white c = (c \<in> set [CHR 0x09, CHR 0x0A, CHR 0x0B, CHR 0x0C, CHR 0x0D, CHR 0x20, CHR 0xA0])"

text \<open>
  \<^verbatim>\<open>parseInt(token, 10)\<close>: skip leading white space, read an optional sign, then the
  longest run of decimal digits; the rest of the token is ignored. Without a digit the
  result is \<^verbatim>\<open>NaN\<close>, and otherwise the double nearest to the signed value of the run,
  as the engines compute it.
\<close>

definition parseInt :: "string \<Rightarrow> number" where
  "parseInt token =
     (let t = dropWhile is_white token;
          sign = (case t of c # _ \<Rightarrow> if c = CHR ''-'' then - 1 else 1 | [] \<Rightarrow> 1);
          u = (case t of c # r \<Rightarrow> if c = CHR ''-'' \<or> c = CHR ''+'' then r else t | [] \<Rightarrow> t);
          ds = takeWhile is_digit u
      in if ds = [] then NaN else to_double (sign * foldl (\<lambda>a c. 10 * a + digit_val c) 0 ds))"

subsection \<open>\<^verbatim>\<open>compareVersion\<close>\<close>

text \<open>
  The \<^verbatim>\<open>while (index < 3)\<close> loop of the source, with \<^verbatim>\<open>index\<close> as the argument
  that grows. A token list is read only below its length; beyond it the number is 0.
\<close>

function compareVersion_loop :: "number list \<Rightarrow> number list \<Rightarrow> nat \<Rightarrow> int" where
  "compareVersion_loop tokensA tokensB index =
     (if index < 3 then
        (let numberA = (if index < length tokensA then tokensA ! index else Num 0);
             numberB = (if index < length tokensB then tokensB ! index else Num 0)
         in if strict_neq_num numberA numberB
            then (if gt_num numberA numberB then 1 else - 1)
            else compareVersion_loop tokensA tokensB (index + 1))
      else 0)"
  by pat_completeness auto
termination
  by (relation "measure (\<lambda>(a, b, index). 3 - index)") auto

declare compareVersion_loop.simps [simp del]

definition compareVersion :: "string \<Rightarrow> string \<Rightarrow> int" where
  "compareVersion versionA versionB =
     (let tokensA = map parseInt (split versionA CHR ''.'');
          tokensB = map parseInt (split versionB CHR ''.'')
      in compareVersion_loop tokensA tokensB 0)"

subsection \<open>The comparison as the specification words it\<close>

text \<open>
  A dotted-decimal version string is a sequence of non-empty runs of decimal digits
  separated by dots. The value of a run is its positional base-10 value; segment \<open>i\<close> of
  a version is the value of its \<open>i\<close>-th run, and 0 when there is no such run.
  \<open>first_difference\<close> compares these integers at the indices 0, 1 and 2.
\<close>

definition dotted_decimal :: "string \<Rightarrow> bool" where
  "dotted_decimal v = list_all (\<lambda>t. t \<noteq> [] \<and> list_all is_digit t) (split v CHR ''.'')"

fun decimal_value :: "string \<Rightarrow> int" where
  "decimal_value [] = 0"
| "decimal_value (c # cs) = digit_val c * 10 ^ length cs + decimal_value cs"

definition segment :: "string \<Rightarrow> nat \<Rightarrow> int" where
  "segment v i = (let ts = split v CHR ''.'' in if i < length ts then decimal_value (ts ! i) else 0)"

definition first_difference :: "string \<Rightarrow> string \<Rightarrow> int" where
  "first_difference a b =
     (if segment a 0 \<noteq> segment b 0 then (if segment a 0 > segment b 0 then 1 else - 1)
      else if segment a 1 \<noteq> segment b 1 then (if segment a 1 > segment b 1 then 1 else - 1)
      else if segment a 2 \<noteq> segment b 2 then (if segment a 2 > segment b 2 then 1 else - 1)
      else 0)"

text \<open>
  The same comparison on the Numbers that the segments are as doubles, and the versions
  whose first three segments are doubles themselves.
\<close>

definition first_number_difference :: "string \<Rightarrow> string \<Rightarrow> int" where
  "first_number_difference a b =
     (if to_double (segment a 0) \<noteq> to_double (segment b 0)
      then (if gt_num (to_double (segment a 0)) (to_double (segment b 0)) then 1 else - 1)
      else if to_double (segment a 1) \<noteq> to_double (segment b 1)
      then (if gt_num (to_double (segment a 1)) (to_double (segment b 1)) then 1 else - 1)
      else if to_double (segment a 2) \<noteq> to_double (segment b 2)
      then (if gt_num (to_double (segment a 2)) (to_double (segment b 2)) then 1 else - 1)
      else 0)"

definition exact_segments :: "string \<Rightarrow> bool" where
  "exact_segments v = (segment v 0 < 2 ^ 53 \<and> segment v 1 < 2 ^ 53 \<and> segment v 2 < 2 ^ 53)"

subsection \<open>Failures and outcomes\<close>

text \<open>
  Every \<^verbatim>\<open>throw\<close> of the source is a constructor, with the values the message is
  built from; \<open>message\<close> is the text of the \<^verbatim>\<open>Error\<close>. \<open>TypeError\<close> is what the
  language raises when \<^verbatim>\<open>compareVersion\<close> calls \<^verbatim>\<open>split\<close> on \<^verbatim>\<open>undefined\<close>, and
  \<open>Thrown\<close> is a failure raised by a listener callback or a plugin body.
\<close>

datatype error =
    DuplicatePlugin string
  | MissingDependency string string
  | UnmetVersion string string string string
  | TypeError
  | Thrown string

fun message :: "error \<Rightarrow> string" where
  "message (DuplicatePlugin name) = ''Plugin '' @ name @ '' is already installed!''"
| "message (MissingDependency key name) =
     ''Plugin '' @ [CHR 0x27] @ key @ [CHR 0x27] @ '' is requred by '' @ [CHR 0x27] @ name
       @ [CHR 0x27] @ '', but not installed!''"
| "message (UnmetVersion key versionNeeded name versionProvided) =
     ''Plugin '' @ [CHR 0x27] @ key @ [CHR 0x27] @ '' version '' @ versionNeeded
       @ '' is requred by '' @ [CHR 0x27] @ name @ [CHR 0x27] @ '', but only ''
       @ versionProvided @ '' is provided!''"
| "message TypeError = ''Cannot read properties of undefined''"
| "message (Thrown text) = text"

datatype 'a outcome = Return 'a | Throw error

subsection \<open>Listeners, descriptors and the bus\<close>

text \<open>
  A callback handed to \<^verbatim>\<open>on\<close> or \<^verbatim>\<open>once\<close> is a function of the event data that
  returns a value or throws, and that may read and write state of its own outside the
  bus (the type \<open>'w\<close>). The type \<open>'d\<close> is the type of the values that callbacks take and
  return; where the code tells a promise from another value (\<^verbatim>\<open>emit\<close> and
  \<^verbatim>\<open>emitParallel\<close>) it is the type \<open>'d datum\<close> below. Callbacks that call back into the
  bus are outside this model.

  The \<^verbatim>\<open>cb\<close> field of a listener holds either such a function as it was given to
  \<^verbatim>\<open>on\<close>, or the wrapper that \<^verbatim>\<open>once\<close> builds around it. The wrapper is a closure
  over the disposer \<^verbatim>\<open>removeListener\<close> and over the variable \<^verbatim>\<open>removed\<close>; the
  disposer in turn is a closure over the \<^verbatim>\<open>$id\<close> of the listener. \<open>OnceWrapper i f\<close> is
  the wrapper whose disposer removes \<^verbatim>\<open>$id\<close> \<open>i\<close>; its variable \<^verbatim>\<open>removed\<close> is the
  cell \<open>i\<close> of the store \<open>removed\<close>.
\<close>

type_synonym ('d, 'w) fn = "'d \<Rightarrow> 'w \<Rightarrow> 'd outcome \<times> 'w"

datatype ('d, 'w) callback = Fn "('d, 'w) fn" | OnceWrapper nat "('d, 'w) fn"

record ('d, 'w) listener =
  mask :: string
  priority :: int
  cb :: "('d, 'w) callback"
  dollar_id :: nat

record descriptor =
  name :: string
  version :: string
  dependencies :: "(string \<times> string) list"

text \<open>
  \<open>listeners\<close>, \<open>plugins\<close> and \<open>next_id\<close> are the fields \<^verbatim>\<open>listeners\<close>,
  \<^verbatim>\<open>plugins\<close> and \<^verbatim>\<open>$id\<close> of the bus object. \<open>plugins\<close> holds the own properties of
  the object \<^verbatim>\<open>this.plugins\<close>. \<open>removed\<close> holds the \<^verbatim>\<open>removed\<close> variables of the
  closures built by \<^verbatim>\<open>once\<close>, and \<open>world\<close> the state of the callbacks.

  \<open>executions\<close> is a history variable and no part of the program: \<open>invoke\<close> appends to it
  each time it runs the function wrapped by \<^verbatim>\<open>once\<close>, with the \<^verbatim>\<open>$id\<close> of the wrapper
  and whether the function returned (\<open>True\<close>) or threw (\<open>False\<close>). No definition reads it.

  \<open>dependencies\<close> lists the own properties of the object \<^verbatim>\<open>dependencies\<close> in the order
  of \<^verbatim>\<open>Object.keys\<close>; the keys of an object are distinct.
\<close>

record ('d, 'w) bus =
  listeners :: "('d, 'w) listener list"
  plugins :: "string \<rightharpoonup> descriptor"
  next_id :: nat
  removed :: "nat \<Rightarrow> bool"
  world :: 'w
  executions :: "(nat \<times> bool) list"

definition constructor :: "'w \<Rightarrow> ('d, 'w) bus" where
  "constructor w =
     \<lparr>listeners = [], plugins = Map.empty, next_id = 0, removed = (\<lambda>_. False), world = w,
      executions = []\<rparr>"

subsection \<open>\<^verbatim>\<open>on\<close>, its disposer, and \<^verbatim>\<open>once\<close>\<close>

text \<open>
  \<^verbatim>\<open>on\<close> returns a closure over \<^verbatim>\<open>$id\<close>; the model returns that \<^verbatim>\<open>$id\<close>, and
  \<open>disposer i\<close> is the closure. An omitted (\<^verbatim>\<open>undefined\<close>) priority is \<open>None\<close> and takes
  the default 0.
\<close>

definition on :: "string \<Rightarrow> ('d, 'w) callback \<Rightarrow> int option \<Rightarrow> ('d, 'w) bus \<Rightarrow> nat \<times> ('d, 'w) bus" where
  "on m c p st =
     (let i = next_id st;
          l = \<lparr>mask = m, priority = (case p of None \<Rightarrow> 0 | Some n \<Rightarrow> n), cb = c, dollar_id = i\<rparr>
      in (i, st\<lparr>next_id := i + 1, listeners := listeners st @ [l]\<rparr>))"

definition disposer :: "nat \<Rightarrow> ('d, 'w) bus \<Rightarrow> nat \<times> ('d, 'w) bus" where
  "disposer i st =
     (let oldLength = length (listeners st);
          st' = st\<lparr>listeners := filter (\<lambda>l. dollar_id l \<noteq> i) (listeners st)\<rparr>
      in (oldLength - length (listeners st'), st'))"

definition once :: "string \<Rightarrow> ('d, 'w) fn \<Rightarrow> int option \<Rightarrow> ('d, 'w) bus \<Rightarrow> nat \<times> ('d, 'w) bus" where
  "once m f p st =
     (let i = next_id st
      in on m (OnceWrapper i f) p (st\<lparr>removed := (removed st)(i := False)\<rparr>))"

text \<open>Calling \<^verbatim>\<open>listener.cb(d)\<close>: the function itself, or the body of the wrapper.\<close>

fun invoke :: "('d, 'w) callback \<Rightarrow> 'd \<Rightarrow> ('d, 'w) bus \<Rightarrow> 'd outcome \<times> ('d, 'w) bus" where
  "invoke (Fn f) d st = (case f d (world st) of (r, w) \<Rightarrow> (r, st\<lparr>world := w\<rparr>))"
| "invoke (OnceWrapper i f) d st =
     (if \<not> removed st i then
        (case f d (world st) of
           (Throw e, w) \<Rightarrow> (Throw e, st\<lparr>world := w, executions := executions st @ [(i, False)]\<rparr>)
         | (Return result, w) \<Rightarrow>
             (let st1 = st\<lparr>world := w, executions := executions st @ [(i, True)]\<rparr>;
                  st2 = snd (disposer i st1);
                  st3 = st2\<lparr>removed := (removed st2)(i := True)\<rparr>
              in (Return result, st3)))
      else (Return d, st))"

subsection \<open>\<^verbatim>\<open>list\<close>\<close>

text \<open>
  \<^verbatim>\<open>Array.prototype.sort\<close> with a comparator is stable (the language requires it
  since ECMAScript 2019): \<open>x\<close> goes before \<open>y\<close> when the
  comparator is negative on \<open>(x, y)\<close>, after it when positive, and elements that compare
  equal keep their order. Insertion from the right end does that.
\<close>

fun insert_by :: "('a \<Rightarrow> 'a \<Rightarrow> int) \<Rightarrow> 'a \<Rightarrow> 'a list \<Rightarrow> 'a list" where
  "insert_by cmp x [] = [x]"
| "insert_by cmp x (y # ys) = (if cmp x y \<le> 0 then x # y # ys else y # insert_by cmp x ys)"

definition js_sort :: "('a \<Rightarrow> 'a \<Rightarrow> int) \<Rightarrow> 'a list \<Rightarrow> 'a list" where
  "js_sort cmp xs = foldr (insert_by cmp) xs []"

definition list :: "string \<Rightarrow> bool \<Rightarrow> ('d, 'w) bus \<Rightarrow> ('d, 'w) listener list" where
  "list event doSort st =
     (if doSort
      then js_sort (\<lambda>a b. priority b - priority a)
             (filter (\<lambda>l. strict_eq (JStr (mask l)) (JStr event)) (listeners st))
      else filter (\<lambda>l. strict_eq (JStr (mask l)) (JStr event)) (listeners st))"

subsection \<open>The four emissions\<close>

text \<open>
  \<^verbatim>\<open>reduce\<close> and \<^verbatim>\<open>map\<close> over an array with a function that may throw and that
  changes the state: the first throw ends the traversal.
\<close>

fun reduce :: "('a \<Rightarrow> 'b \<Rightarrow> 's \<Rightarrow> 'a outcome \<times> 's) \<Rightarrow> 'a \<Rightarrow> 'b list \<Rightarrow> 's \<Rightarrow> 'a outcome \<times> 's" where
  "reduce f acc [] st = (Return acc, st)"
| "reduce f acc (x # xs) st =
     (case f acc x st of
        (Return r, st') \<Rightarrow> reduce f r xs st'
      | (Throw e, st') \<Rightarrow> (Throw e, st'))"

fun js_map :: "('b \<Rightarrow> 's \<Rightarrow> 'a outcome \<times> 's) \<Rightarrow> 'b list \<Rightarrow> 's \<Rightarrow> 'a list outcome \<times> 's" where
  "js_map f [] st = (Return [], st)"
| "js_map f (x # xs) st =
     (case f x st of
        (Throw e, st') \<Rightarrow> (Throw e, st')
      | (Return r, st') \<Rightarrow>
          (case js_map f xs st' of
             (Throw e, st'') \<Rightarrow> (Throw e, st'')
           | (Return rs, st'') \<Rightarrow> (Return (r # rs), st'')))"

definition emitSync :: "string \<Rightarrow> 'd \<Rightarrow> ('d, 'w) bus \<Rightarrow> 'd outcome \<times> ('d, 'w) bus" where
  "emitSync event data st =
     reduce (\<lambda>result listener. invoke (cb listener) result) data (list event True st) st"

definition emitParallelSync :: "string \<Rightarrow> 'd \<Rightarrow> ('d, 'w) bus \<Rightarrow> 'd list outcome \<times> ('d, 'w) bus" where
  "emitParallelSync event data st = js_map (\<lambda>l. invoke (cb l) data) (list event True st) st"

subsection \<open>Promises, \<^verbatim>\<open>emit\<close> and \<^verbatim>\<open>emitParallel\<close>\<close>

text \<open>
  A promise that a callback returns is known by how it settles: \<open>Deferred t out\<close>
  settles \<open>t\<close> ticks after the call that returned it, fulfilled with a value
  (\<open>Return\<close>) or rejected (\<open>Throw\<close>). A value that a callback takes or returns is plain
  data or such a promise. A promise is never fulfilled with a promise. Promises that
  never settle are outside this model.

  \<^verbatim>\<open>Promise.resolve(v)\<close> is \<^verbatim>\<open>v\<close> itself when \<^verbatim>\<open>v\<close> is a promise, and otherwise a
  promise already fulfilled with \<^verbatim>\<open>v\<close>.
\<close>

datatype 'a deferred = Deferred nat "'a outcome"

datatype 'd datum = Plain 'd | Promised "'d deferred"

fun settles_at :: "'a deferred \<Rightarrow> nat" where
  "settles_at (Deferred t out) = t"

fun settles_to :: "'a deferred \<Rightarrow> 'a outcome" where
  "settles_to (Deferred t out) = out"

fun promise_resolve :: "'d datum \<Rightarrow> 'd deferred" where
  "promise_resolve (Plain d) = Deferred 0 (Return d)"
| "promise_resolve (Promised p) = p"

text \<open>
  \<^verbatim>\<open>Promise.all\<close> keeps an array of values with one place for each promise of the
  list, and the count of the promises not yet fulfilled. The promises settle in the order
  of their ticks, and in the order of the list within one tick. When a promise is
  fulfilled, its value goes to its place in the array and the count goes down; at zero,
  the promise of all is fulfilled with the array. When a promise is rejected, the
  promise of all is rejected with its reason, unless it has settled before. The promise
  of all of no promises is fulfilled with the empty array at once. \<open>None\<close> is a promise
  of all that has not settled.
\<close>

type_synonym 'a all_state = "(nat \<rightharpoonup> 'a) \<times> nat \<times> 'a list deferred option"

fun all_step :: "nat \<Rightarrow> nat \<times> 'a deferred \<Rightarrow> 'a all_state \<Rightarrow> 'a all_state" where
  "all_step n (i, Deferred t (Return v)) (vals, remaining, res) =
     (let vals' = vals(i \<mapsto> v);
          remaining' = remaining - 1
      in (vals', remaining',
          if res = None \<and> remaining' = 0
          then (case those (map vals' [0..<n]) of
                  Some vs \<Rightarrow> Some (Deferred t (Return vs))
                | None \<Rightarrow> None)
          else res))"
| "all_step n (i, Deferred t (Throw e)) (vals, remaining, res) =
     (vals, remaining, if res = None then Some (Deferred t (Throw e)) else res)"

definition completion_order :: "'a deferred list \<Rightarrow> (nat \<times> 'a deferred) list" where
  "completion_order ps = sort_key (\<lambda>(i, p). settles_at p) (zip [0..<length ps] ps)"

definition promise_all :: "'a deferred list \<Rightarrow> 'a list deferred option" where
  "promise_all ps =
     (let n = length ps;
          start = (Map.empty, n, if n = 0 then Some (Deferred 0 (Return [])) else None)
      in snd (snd (fold (all_step n) (completion_order ps) start)))"

text \<open>
  The promise that \<^verbatim>\<open>emit\<close> returns is the expression that built it:
  \<^verbatim>\<open>Promise.resolve(data)\<close>, or \<^verbatim>\<open>p.then((r) => cb(r))\<close> for a callback \<^verbatim>\<open>cb\<close>.
  \<^verbatim>\<open>emit\<close> builds the chain at once and runs no callback. \<open>settle\<close> runs the
  reactions of a chain in their order on a state, with nothing else in between, and
  gives the outcome the promise settles to: a reaction is called with the value its
  predecessor was fulfilled with, and when it returns a promise the chain takes the
  outcome of that promise.
\<close>

datatype ('d, 'w) promise = Resolve "'d datum" | Then "('d, 'w) promise" "('d datum, 'w) callback"

fun settle :: "('d, 'w) promise \<Rightarrow> ('d datum, 'w) bus \<Rightarrow> 'd outcome \<times> ('d datum, 'w) bus" where
  "settle (Resolve v) st = (settles_to (promise_resolve v), st)"
| "settle (Then p c) st =
     (case settle p st of
        (Return r, st') \<Rightarrow>
          (case invoke c (Plain r) st' of
             (Return v, st'') \<Rightarrow> (settles_to (promise_resolve v), st'')
           | (Throw e, st'') \<Rightarrow> (Throw e, st''))
      | (Throw e, st') \<Rightarrow> (Throw e, st'))"

definition emit :: "string \<Rightarrow> 'd datum \<Rightarrow> ('d datum, 'w) bus \<Rightarrow> ('d, 'w) promise" where
  "emit event data st =
     foldl (\<lambda>result listener. Then result (cb listener)) (Resolve data) (list event True st)"

text \<open>
  \<^verbatim>\<open>emitParallel\<close> calls every callback at once, inside \<^verbatim>\<open>map\<close>: a callback that
  throws makes \<^verbatim>\<open>emitParallel\<close> itself throw. What the callbacks return goes through
  \<^verbatim>\<open>Promise.resolve\<close> and the promises through \<^verbatim>\<open>Promise.all\<close>.
\<close>

definition emitParallel ::
  "string \<Rightarrow> 'd datum \<Rightarrow> ('d datum, 'w) bus
    \<Rightarrow> 'd list deferred option outcome \<times> ('d datum, 'w) bus" where
  "emitParallel event data st =
     (case js_map (\<lambda>l s. case invoke (cb l) data s of
                           (Return r, s') \<Rightarrow> (Return (promise_resolve r), s')
                         | (Throw e, s') \<Rightarrow> (Throw e, s'))
             (list event True st) st of
        (Return ps, st') \<Rightarrow> (Return (promise_all ps), st')
      | (Throw e, st') \<Rightarrow> (Throw e, st'))"

subsection \<open>\<^verbatim>\<open>has\<close> and \<^verbatim>\<open>off\<close>\<close>

definition has :: "string \<Rightarrow> ('d, 'w) bus \<Rightarrow> bool" where
  "has event st = (length (list event False st) > 0)"

text \<open>
  The filter of \<^verbatim>\<open>off\<close> keeps a listener when \<^verbatim>\<open>!l.mask === event\<close>: the negation
  binds tighter than the comparison. The method returns the array it assigns.
\<close>

definition off :: "string \<Rightarrow> ('d, 'w) bus \<Rightarrow> ('d, 'w) listener list \<times> ('d, 'w) bus" where
  "off event st =
     (let ls = filter (\<lambda>l. strict_eq (js_not (JStr (mask l))) (JStr event)) (listeners st)
      in (ls, st\<lparr>listeners := ls\<rparr>))"

subsection \<open>Plugins\<close>

text \<open>
  A plugin is a function with a \<^verbatim>\<open>plugin\<close> property: \<open>pl_plugin\<close> is the property and
  \<open>pl_call\<close> the function, which receives the options and the bus and may do to the bus
  whatever the methods above allow before it returns or throws.
\<close>

record ('o, 'd, 'w) plugin_function =
  pl_plugin :: descriptor
  pl_call :: "'o \<Rightarrow> ('d, 'w) bus \<Rightarrow> unit outcome \<times> ('d, 'w) bus"

definition createPlugin ::
  "string \<Rightarrow> string \<Rightarrow> (string \<times> string) list \<Rightarrow> ('o \<Rightarrow> ('d, 'w) bus \<Rightarrow> unit outcome \<times> ('d, 'w) bus)
    \<Rightarrow> ('o, 'd, 'w) plugin_function" where
  "createPlugin n v deps f = \<lparr>pl_plugin = \<lparr>name = n, version = v, dependencies = deps\<rparr>, pl_call = f\<rparr>"

text \<open>
  \<^verbatim>\<open>this.plugins\<close> is created by the literal \<^verbatim>\<open>{}\<close>, so reading \<^verbatim>\<open>this.plugins[key]\<close>
  finds an own property if there is one and otherwise what every object inherits from
  \<^verbatim>\<open>Object.prototype\<close>. An inherited value is truthy, and it has no \<^verbatim>\<open>version\<close>.
\<close>

definition object_prototype_keys :: "string list" where
  "object_prototype_keys =
     [''constructor'', ''hasOwnProperty'', ''isPrototypeOf'', ''propertyIsEnumerable'',
      ''toLocaleString'', ''toString'', ''valueOf'', ''__proto__'', ''__defineGetter__'',
      ''__defineSetter__'', ''__lookupGetter__'', ''__lookupSetter__'']"

datatype property = Undefined | Own descriptor | Inherited

definition get_plugin :: "('d, 'w) bus \<Rightarrow> string \<Rightarrow> property" where
  "get_plugin st key =
     (case plugins st key of
        Some d \<Rightarrow> Own d
      | None \<Rightarrow> if key \<in> set object_prototype_keys then Inherited else Undefined)"

text \<open>
  The \<^verbatim>\<open>forEach\<close> over the keys of \<^verbatim>\<open>dependencies\<close>. With an inherited value as the
  installed plugin, \<^verbatim>\<open>versionProvided\<close> is \<^verbatim>\<open>undefined\<close> and \<^verbatim>\<open>compareVersion\<close>
  throws when it splits it.
\<close>

fun check_dependencies :: "('d, 'w) bus \<Rightarrow> string \<Rightarrow> (string \<times> string) list \<Rightarrow> error option" where
  "check_dependencies st n [] = None"
| "check_dependencies st n ((key, versionNeeded) # rest) =
     (case get_plugin st key of
        Undefined \<Rightarrow> Some (MissingDependency key n)
      | Inherited \<Rightarrow> Some TypeError
      | Own d \<Rightarrow>
          (let versionProvided = version d
           in if compareVersion versionNeeded versionProvided > 0
              then Some (UnmetVersion key versionNeeded n versionProvided)
              else check_dependencies st n rest))"

text \<open>The two checks that \<^verbatim>\<open>plugin\<close> makes before it calls the plugin.\<close>

definition validate :: "('d, 'w) bus \<Rightarrow> descriptor \<Rightarrow> error option" where
  "validate st d =
     (if get_plugin st (name d) \<noteq> Undefined then Some (DuplicatePlugin (name d))
      else check_dependencies st (name d) (dependencies d))"

definition plugin :: "('o, 'd, 'w) plugin_function \<Rightarrow> 'o \<Rightarrow> ('d, 'w) bus \<Rightarrow> unit outcome \<times> ('d, 'w) bus" where
  "plugin pl options st =
     (case validate st (pl_plugin pl) of
        Some e \<Rightarrow> (Throw e, st)
      | None \<Rightarrow>
          (case pl_call pl options st of
             (Throw e, st') \<Rightarrow> (Throw e, st')
           | (Return _, st') \<Rightarrow>
               (Return (), st'\<lparr>plugins := (plugins st')(name (pl_plugin pl) \<mapsto> pl_plugin pl)\<rparr>)))"

subsection \<open>Notions of the specification\<close>

text \<open>
  A callback that returns \<open>g d\<close> and touches nothing, such as \<^verbatim>\<open>(d) => d + 1\<close>.
\<close>

definition returning :: "('d \<Rightarrow> 'd) \<Rightarrow> ('d, 'w) callback" where
  "returning g = Fn (\<lambda>d w. (Return (g d), w))"

text \<open>
  The results of a sequential emission as the specification numbers them:
  \<open>result ls data st 0\<close> is the data, and \<open>result ls data st (i + 1)\<close> is what the callback
  of listener \<open>i\<close> makes of result \<open>i\<close>, in the state that the calls before it have left. A
  failure is the result from then on.
\<close>

fun result :: "('d, 'w) listener list \<Rightarrow> 'd \<Rightarrow> ('d, 'w) bus \<Rightarrow> nat \<Rightarrow> 'd outcome \<times> ('d, 'w) bus" where
  "result ls data st 0 = (Return data, st)"
| "result ls data st (Suc i) =
     (case result ls data st i of
        (Return r, st') \<Rightarrow> invoke (cb (ls ! i)) r st'
      | (Throw e, st') \<Rightarrow> (Throw e, st'))"

text \<open>
  For a parallel emission: \<open>answer ls data st i\<close> is what the callback of listener \<open>i\<close>
  makes of the original data, where \<open>state_before ls data st i\<close> is the state that the
  calls of the listeners before it, all on the original data, have left.
  \<open>collect\<close> turns a list of answers into the list of their values, or into the first
  failure among them.
\<close>

fun state_before :: "('d, 'w) listener list \<Rightarrow> 'd \<Rightarrow> ('d, 'w) bus \<Rightarrow> nat \<Rightarrow> ('d, 'w) bus" where
  "state_before ls data st 0 = st"
| "state_before ls data st (Suc i) = snd (invoke (cb (ls ! i)) data (state_before ls data st i))"

definition answer :: "('d, 'w) listener list \<Rightarrow> 'd \<Rightarrow> ('d, 'w) bus \<Rightarrow> nat \<Rightarrow> 'd outcome" where
  "answer ls data st i = fst (invoke (cb (ls ! i)) data (state_before ls data st i))"

fun collect :: "'a outcome list \<Rightarrow> 'a list outcome" where
  "collect [] = Return []"
| "collect (Throw e # os) = Throw e"
| "collect (Return r # os) = (case collect os of Return rs \<Rightarrow> Return (r # rs) | Throw e \<Rightarrow> Throw e)"

text \<open>
  A dependency is satisfied when a descriptor is recorded under its name whose version
  is not lower than the one required.
\<close>

definition satisfied :: "('d, 'w) bus \<Rightarrow> string \<times> string \<Rightarrow> bool" where
  "satisfied st dep =
     (case plugins st (fst dep) of
        None \<Rightarrow> False
      | Some d \<Rightarrow> \<not> compareVersion (snd dep) (version d) > 0)"

text \<open>
  The number of times the function wrapped by the \<^verbatim>\<open>once\<close> listener \<open>i\<close> has run.
\<close>

definition runs :: "nat \<Rightarrow> ('d, 'w) bus \<Rightarrow> nat" where
  "runs i st = length (filter (\<lambda>x. fst x = i) (executions st))"

subsection \<open>Scenarios\<close>

text \<open>
  The scenario of the specification, on integer data: a listener \<^verbatim>\<open>(d) => d * 2\<close> of
  priority 0 and a listener \<^verbatim>\<open>(d) => d + 1\<close> of priority 1 on the event \<^verbatim>\<open>"x"\<close>, with
  the listener of lower priority registered first.
\<close>

definition scenario :: "(int, unit) bus" where
  "scenario =
     snd (on ''x'' (returning (\<lambda>d. d + 1)) (Some 1)
       (snd (on ''x'' (returning (\<lambda>d. d * 2)) (Some 0) (constructor ()))))"

text \<open>
  The same two listeners with callbacks that return promises, such as
  \<^verbatim>\<open>(d) => new Promise((resolve) => setTimeout(() => resolve(d + 1), 5))\<close>: the
  listener of priority 1 settles after 5 ticks and the listener of priority 0 after 1,
  so the second of \<^verbatim>\<open>list("x")\<close> completes first. \<open>deferring t g\<close> takes plain data only:
  handed a promise, it throws.
\<close>

definition deferring :: "nat \<Rightarrow> ('d \<Rightarrow> 'd) \<Rightarrow> ('d datum, 'w) callback" where
  "deferring t g =
     Fn (\<lambda>v w. case v of
                 Plain d \<Rightarrow> (Return (Promised (Deferred t (Return (g d)))), w)
               | Promised p \<Rightarrow> (Throw (Thrown ''not plain data''), w))"

definition slow_first :: "(int datum, unit) bus" where
  "slow_first =
     snd (on ''x'' (deferring 5 (\<lambda>d. d + 1)) (Some 1)
       (snd (on ''x'' (deferring 1 (\<lambda>d. d * 2)) (Some 0) (constructor ()))))"

text \<open>A bus with one listener on \<^verbatim>\<open>"a"\<close> and one on \<^verbatim>\<open>"b"\<close>.\<close>

definition two_masks :: "(int, unit) bus" where
  "two_masks =
     snd (on ''b'' (returning (\<lambda>d. d)) None
       (snd (on ''a'' (returning (\<lambda>d. d)) None (constructor ()))))"

text \<open>
  A callback that counts its calls in a variable of its own and throws, registered with
  \<^verbatim>\<open>once\<close> on a new bus; and a callback that counts its calls and returns its input
  plus one.
\<close>

definition failing :: "(int, nat) fn" where
  "failing d w = (Throw (Thrown ''boom''), w + 1)"

definition once_failing :: "(int, nat) bus" where
  "once_failing = snd (once ''x'' failing None (constructor 0))"

definition counting :: "(int, nat) fn" where
  "counting d w = (Return (d + 1), w + 1)"

definition once_counting :: "(int, nat) bus" where
  "once_counting = snd (once ''x'' counting None (constructor 0))"

text \<open>
  Plugins: one whose body throws, one whose body registers a listener and returns, one
  whose body registers a listener and then throws, and one that needs version 2.0.0 of
  the plugin \<^verbatim>\<open>base\<close>.
\<close>

definition throwing_plugin :: "(unit, int, unit) plugin_function" where
  "throwing_plugin = createPlugin ''p'' ''1.0.0'' [] (\<lambda>opts st. (Throw (Thrown ''boom''), st))"

definition base_plugin :: "(unit, int, unit) plugin_function" where
  "base_plugin =
     createPlugin ''base'' ''1.5.0'' []
       (\<lambda>opts st. (Return (), snd (on ''x'' (returning (\<lambda>d. d + 1)) None st)))"


definition needs_base :: "string \<Rightarrow> (unit, int, unit) plugin_function" where
  "needs_base v = createPlugin ''ext'' ''0.1.0'' [(''base'', v)] (\<lambda>opts st. (Return (), st))"

definition with_base :: "(int, unit) bus" where
  "with_base = snd (plugin base_plugin () (constructor ()))"

subsection \<open>Facts about parsing\<close>

lemma foldl_decimal:
  "foldl (\<lambda>a c. 10 * a + digit_val c) acc ds = acc * 10 ^ length ds + decimal_value ds"
  by (induction ds arbitrary: acc) (simp_all add: algebra_simps)

lemma takeWhile_all: "list_all P xs \<Longrightarrow> takeWhile P xs = xs"
  by (induction xs) simp_all

lemma digit_not_white: "is_digit c \<Longrightarrow> \<not> is_white c"
  by (auto simp: is_digit_def is_white_def)

lemma digit_not_sign: "is_digit c \<Longrightarrow> c \<noteq> CHR ''-'' \<and> c \<noteq> CHR ''+''"
  by (auto simp: is_digit_def)

lemma parseInt_digits:
  assumes "t \<noteq> []" and "list_all is_digit t"
  shows "parseInt t = to_double (decimal_value t)"
proof -
  obtain c r where t: "t = c # r"
    using assms(1) by (cases t) auto
  have c: "is_digit c"
    using assms(2) t by simp
  have dw: "dropWhile is_white t = t"
    using c t digit_not_white by simp
  have tw: "takeWhile is_digit t = t"
    using assms(2) by (rule takeWhile_all)
  have sign: "(case t of c # _ \<Rightarrow> if c = CHR ''-'' then - 1 else 1 | [] \<Rightarrow> (1::int)) = 1"
    using digit_not_sign [OF c] by (simp add: t)
  have u: "(case t of c # r \<Rightarrow> if c = CHR ''-'' \<or> c = CHR ''+'' then r else t | [] \<Rightarrow> t) = t"
    using digit_not_sign [OF c] by (simp add: t)
  show ?thesis
    unfolding parseInt_def Let_def dw sign u tw
    using assms(1) by (simp add: foldl_decimal)
qed

lemma to_double_not_NaN: "to_double z \<noteq> NaN"
  by (simp add: to_double_def split: option.splits)

lemma strict_neq_num_plain: "a \<noteq> NaN \<Longrightarrow> b \<noteq> NaN \<Longrightarrow> strict_neq_num a b = (a \<noteq> b)"
  by (cases a; cases b) simp_all

lemma to_double_exact: "\<bar>z\<bar> < 2 ^ 53 \<Longrightarrow> to_double z = Num z"
  by (auto simp: to_double_def round_nat_def nat_less_iff)

lemma to_double_0: "to_double 0 = Num 0"
  by (simp add: to_double_exact)

lemma digit_val_nonneg: "is_digit c \<Longrightarrow> 0 \<le> digit_val c"
  by (auto simp: is_digit_def digit_val_def)

lemma decimal_value_nonneg: "list_all is_digit t \<Longrightarrow> 0 \<le> decimal_value t"
  by (induction t) (simp_all add: digit_val_nonneg)

lemma segment_nonneg:
  assumes "dotted_decimal v"
  shows "0 \<le> segment v i"
proof (cases "i < length (split v CHR ''.'')")
  case True
  then have "split v CHR ''.'' ! i \<in> set (split v CHR ''.'')"
    by simp
  then have "list_all is_digit (split v CHR ''.'' ! i)"
    using assms by (simp add: dotted_decimal_def list_all_iff)
  then show ?thesis
    using True by (simp add: segment_def decimal_value_nonneg)
next
  case False
  then show ?thesis
    by (simp add: segment_def)
qed

lemma token_at:
  assumes "dotted_decimal v"
  shows "(if i < length (map parseInt (split v CHR ''.'')) then map parseInt (split v CHR ''.'') ! i
          else Num 0) = to_double (segment v i)"
proof (cases "i < length (split v CHR ''.'')")
  case True
  then have "split v CHR ''.'' ! i \<in> set (split v CHR ''.'')"
    by simp
  then have "split v CHR ''.'' ! i \<noteq> [] \<and> list_all is_digit (split v CHR ''.'' ! i)"
    using assms by (simp add: dotted_decimal_def list_all_iff)
  then show ?thesis
    using True by (simp add: segment_def parseInt_digits)
next
  case False
  then show ?thesis
    by (simp add: segment_def to_double_0)
qed

lemma compareVersion_loop_unfold:
  "compareVersion_loop ta tb 0 =
     (let numberA = (if 0 < length ta then ta ! 0 else Num 0);
          numberB = (if 0 < length tb then tb ! 0 else Num 0)
      in if strict_neq_num numberA numberB then (if gt_num numberA numberB then 1 else - 1)
         else compareVersion_loop ta tb 1)"
  "compareVersion_loop ta tb 1 =
     (let numberA = (if 1 < length ta then ta ! 1 else Num 0);
          numberB = (if 1 < length tb then tb ! 1 else Num 0)
      in if strict_neq_num numberA numberB then (if gt_num numberA numberB then 1 else - 1)
         else compareVersion_loop ta tb 2)"
  "compareVersion_loop ta tb 2 =
     (let numberA = (if 2 < length ta then ta ! 2 else Num 0);
          numberB = (if 2 < length tb then tb ! 2 else Num 0)
      in if strict_neq_num numberA numberB then (if gt_num numberA numberB then 1 else - 1)
         else compareVersion_loop ta tb 3)"
  "compareVersion_loop ta tb 3 = 0"
  by (subst compareVersion_loop.simps, simp add: Let_def numeral_2_eq_2 numeral_3_eq_3)+

lemma compareVersion_dotted:
  assumes "dotted_decimal a" and "dotted_decimal b"
  shows "compareVersion a b = first_number_difference a b"
  unfolding compareVersion_def Let_def compareVersion_loop_unfold
    token_at [OF assms(1)] token_at [OF assms(2)] first_number_difference_def
  by (simp add: strict_neq_num_plain to_double_not_NaN)

lemma to_double_segment:
  assumes "dotted_decimal v" and "segment v i < 2 ^ 53"
  shows "to_double (segment v i) = Num (segment v i)"
  using segment_nonneg [OF assms(1), of i] assms(2) by (simp add: to_double_exact)

lemma compareVersion_exact:
  assumes "dotted_decimal a" and "dotted_decimal b" and "exact_segments a" and "exact_segments b"
  shows "compareVersion a b = first_difference a b"
proof -
  have a: "to_double (segment a 0) = Num (segment a 0)" "to_double (segment a 1) = Num (segment a 1)"
    "to_double (segment a 2) = Num (segment a 2)"
    using assms(3) by (simp_all add: exact_segments_def to_double_segment [OF assms(1)])
  have b: "to_double (segment b 0) = Num (segment b 0)" "to_double (segment b 1) = Num (segment b 1)"
    "to_double (segment b 2) = Num (segment b 2)"
    using assms(4) by (simp_all add: exact_segments_def to_double_segment [OF assms(2)])
  show ?thesis
    unfolding compareVersion_dotted [OF assms(1,2)] first_number_difference_def
      first_difference_def a b
    by simp
qed

lemma compareVersion_examples:
  "compareVersion ''1.2.0'' ''1.2'' = 0"
  "compareVersion ''2.0.0'' ''1.9.9'' = 1"
  "compareVersion ''1.0'' ''1.0.1'' = - 1"
  unfolding compareVersion_def Let_def compareVersion_loop_unfold
  by (simp_all add: split_def parseInt_def is_white_def is_digit_def digit_val_def to_double_exact)

lemma bit_length_eq: "2 ^ k \<le> n \<Longrightarrow> n < 2 ^ Suc k \<Longrightarrow> bit_length n = Suc k"
proof (induction k arbitrary: n)
  case 0
  then have "n = 1" by simp
  then show ?case
    by (simp add: bit_length.simps [of "Suc 0"] bit_length.simps [of 0])
next
  case (Suc k)
  have "2 ^ k \<le> n div 2" and "n div 2 < 2 ^ Suc k"
    using Suc.prems by auto
  then have "bit_length (n div 2) = Suc k"
    by (rule Suc.IH)
  moreover have "n \<noteq> 0"
  proof
    assume "n = 0"
    then have "(2::nat) ^ Suc k \<le> 0"
      using Suc.prems(1) by simp
    then show False
      by simp
  qed
  ultimately show ?case
    by (simp add: bit_length.simps [of n])
qed

lemma to_double_rounds:
  "to_double 9007199254740993 = Num 9007199254740992"
  "to_double 9007199254740992 = Num 9007199254740992"
proof -
  have a: "bit_length 9007199254740993 = 54"
    using bit_length_eq [of 53 9007199254740993] by simp
  have b: "bit_length 9007199254740992 = 54"
    using bit_length_eq [of 53 9007199254740992] by simp
  show "to_double 9007199254740993 = Num 9007199254740992"
    by (simp add: to_double_def round_nat_def a Let_def)
  show "to_double 9007199254740992 = Num 9007199254740992"
    by (simp add: to_double_def round_nat_def b Let_def)
qed

lemma big_dotted:
  "dotted_decimal ''9007199254740993''" "dotted_decimal ''9007199254740992''"
  by (simp_all add: dotted_decimal_def split_def is_digit_def)

lemma big_segments:
  "segment ''9007199254740993'' 0 = 9007199254740993"
  "segment ''9007199254740992'' 0 = 9007199254740992"
  "segment ''9007199254740993'' (Suc i) = 0"
  "segment ''9007199254740992'' (Suc i) = 0"
  by (simp_all add: segment_def split_def digit_val_def)

text \<open>
  Claim C8 says that \<^verbatim>\<open>compareVersion\<close> is the first difference of the base-10 values
  of the segments. The segments are compared as doubles: \<open>9007199254740993\<close> and
  \<open>9007199254740992\<close> differ, and the versions that consist of them compare equal.
\<close>

theorem compareVersion_rounds:
  "dotted_decimal ''9007199254740993'' \<and> dotted_decimal ''9007199254740992''
   \<and> first_difference ''9007199254740993'' ''9007199254740992'' = 1
   \<and> compareVersion ''9007199254740993'' ''9007199254740992'' = 0"
proof -
  have "first_difference ''9007199254740993'' ''9007199254740992'' = 1"
    by (simp add: first_difference_def big_segments)
  moreover have "compareVersion ''9007199254740993'' ''9007199254740992'' = 0"
    by (simp add: compareVersion_dotted big_dotted first_number_difference_def big_segments
        to_double_rounds to_double_0 numeral_2_eq_2)
  ultimately show ?thesis
    using big_dotted by simp
qed

text \<open>
  Claim C8, amended. For dotted-decimal version strings \<open>a\<close> and \<open>b\<close>,
  \<^verbatim>\<open>compareVersion(a, b)\<close> compares the segments at the indices 0, 1 and 2 in this
  order as the Numbers that \<^verbatim>\<open>parseInt\<close> returns for them, each the double nearest to
  the base-10 value of the segment, with 0 for a missing segment: it is 1 or -1 at the
  first index where they differ, according to which is greater, and 0 when the three
  agree; later segments are not read. When these segments are below \<open>2 ^ 53\<close> the Numbers
  are the base-10 values themselves. In particular
  \<^verbatim>\<open>compareVersion("1.2.0", "1.2") = 0\<close>, \<^verbatim>\<open>compareVersion("2.0.0", "1.9.9") = 1\<close> and
  \<^verbatim>\<open>compareVersion("1.0", "1.0.1") = -1\<close>.
\<close>

theorem compareVersion_first_difference:
  "(dotted_decimal a \<and> dotted_decimal b \<longrightarrow> compareVersion a b = first_number_difference a b)
   \<and> (dotted_decimal a \<and> dotted_decimal b \<and> exact_segments a \<and> exact_segments b \<longrightarrow>
        compareVersion a b = first_difference a b)
   \<and> compareVersion ''1.2.0'' ''1.2'' = 0
   \<and> compareVersion ''2.0.0'' ''1.9.9'' = 1
   \<and> compareVersion ''1.0'' ''1.0.1'' = - 1"
  using compareVersion_dotted [of a b] compareVersion_exact [of a b] compareVersion_examples
  by blast

theorem compareVersion_first_difference_witness:
  "dotted_decimal ''2.10.3.7'' \<and> dotted_decimal ''2.9.8''
   \<and> exact_segments ''2.10.3.7'' \<and> exact_segments ''2.9.8''
   \<and> compareVersion ''2.10.3.7'' ''2.9.8'' = first_difference ''2.10.3.7'' ''2.9.8''
   \<and> first_difference ''2.10.3.7'' ''2.9.8'' = 1
   \<and> dotted_decimal ''9007199254740993'' \<and> dotted_decimal ''9007199254740992''
   \<and> compareVersion ''9007199254740993'' ''9007199254740992''
       = first_number_difference ''9007199254740993'' ''9007199254740992''
   \<and> first_number_difference ''9007199254740993'' ''9007199254740992'' = 0"
proof -
  have a: "dotted_decimal ''2.10.3.7''"
    by (simp add: dotted_decimal_def split_def is_digit_def)
  have b: "dotted_decimal ''2.9.8''"
    by (simp add: dotted_decimal_def split_def is_digit_def)
  have ea: "exact_segments ''2.10.3.7''"
    by (simp add: exact_segments_def segment_def split_def digit_val_def)
  have eb: "exact_segments ''2.9.8''"
    by (simp add: exact_segments_def segment_def split_def digit_val_def)
  have c: "first_difference ''2.10.3.7'' ''2.9.8'' = 1"
    by (simp add: first_difference_def segment_def split_def digit_val_def)
  have d: "first_number_difference ''9007199254740993'' ''9007199254740992'' = 0"
    by (simp add: first_number_difference_def big_segments to_double_rounds to_double_0
        numeral_2_eq_2)
  have small: "compareVersion ''2.10.3.7'' ''2.9.8'' = first_difference ''2.10.3.7'' ''2.9.8''"
    using a b ea eb compareVersion_first_difference [of "''2.10.3.7''" "''2.9.8''"] by blast
  have big: "compareVersion ''9007199254740993'' ''9007199254740992''
       = first_number_difference ''9007199254740993'' ''9007199254740992''"
    using big_dotted
      compareVersion_first_difference [of "''9007199254740993''" "''9007199254740992''"]
    by blast
  show ?thesis
    using a b ea eb c d small big big_dotted by blast
qed

subsection \<open>The listener list\<close>

lemma mset_insert_by: "mset (insert_by c x xs) = add_mset x (mset xs)"
  by (induction xs) simp_all

lemma mset_js_sort: "mset (js_sort c xs) = mset xs"
  by (induction xs) (simp_all add: js_sort_def mset_insert_by)

lemma set_insert_by: "set (insert_by c x xs) = insert x (set xs)"
  by (induction xs) auto

lemma sorted_insert_by:
  "sorted_wrt (\<lambda>a b. priority b \<le> priority a) xs \<Longrightarrow>
   sorted_wrt (\<lambda>a b. priority b \<le> priority a) (insert_by (\<lambda>a b. priority b - priority a) x xs)"
  by (induction xs) (auto simp: set_insert_by)

lemma sorted_js_sort:
  "sorted_wrt (\<lambda>a b. priority b \<le> priority a) (js_sort (\<lambda>a b. priority b - priority a) xs)"
  by (induction xs) (simp_all add: js_sort_def sorted_insert_by)

lemma filter_insert_by_other:
  "priority x \<noteq> p \<Longrightarrow>
   filter (\<lambda>l. priority l = p) (insert_by c x xs) = filter (\<lambda>l. priority l = p) xs"
  by (induction xs) simp_all

lemma filter_insert_by_same:
  "sorted_wrt (\<lambda>a b. priority b \<le> priority a) xs \<Longrightarrow>
   filter (\<lambda>l. priority l = priority x) (insert_by (\<lambda>a b. priority b - priority a) x xs)
     = x # filter (\<lambda>l. priority l = priority x) xs"
  by (induction xs) auto

lemma js_sort_stable:
  "filter (\<lambda>l. priority l = p) (js_sort (\<lambda>a b. priority b - priority a) xs)
     = filter (\<lambda>l. priority l = p) xs"
proof (induction xs)
  case Nil
  then show ?case by (simp add: js_sort_def)
next
  case (Cons x xs)
  have unfold: "js_sort (\<lambda>a b. priority b - priority a) (x # xs)
      = insert_by (\<lambda>a b. priority b - priority a) x (js_sort (\<lambda>a b. priority b - priority a) xs)"
    by (simp add: js_sort_def)
  show ?case
  proof (cases "priority x = p")
    case True
    then show ?thesis
      using Cons.IH filter_insert_by_same [OF sorted_js_sort, of x xs]
      by (simp add: unfold)
  next
    case False
    then show ?thesis
      using Cons.IH by (simp add: unfold filter_insert_by_other)
  qed
qed

lemma mask_filter: "strict_eq (JStr a) (JStr b) = (a = b)"
  by simp

text \<open>
  Claim C7. \<^verbatim>\<open>list(e, true)\<close> holds exactly the listeners whose mask is \<open>e\<close> (as a
  multiset), in descending order of priority, and the listeners of any one priority are
  in the order in which the bus holds them, which is the order of their registration.
\<close>

theorem list_sorted_stable:
  "mset (list e True st) = mset (filter (\<lambda>l. mask l = e) (listeners st))
   \<and> sorted_wrt (\<lambda>a b. priority b \<le> priority a) (list e True st)
   \<and> (\<forall>p. filter (\<lambda>l. priority l = p) (list e True st)
            = filter (\<lambda>l. priority l = p \<and> mask l = e) (listeners st))"
  by (simp add: list_def mset_js_sort sorted_js_sort js_sort_stable conj_commute)

subsection \<open>Emission\<close>

lemma reduce_snoc:
  "reduce f acc (xs @ [x]) st =
     (case reduce f acc xs st of (Return r, st') \<Rightarrow> f r x st' | (Throw e, st') \<Rightarrow> (Throw e, st'))"
  by (induction xs arbitrary: acc st) (auto split: prod.splits outcome.splits)

lemma result_append: "i \<le> length xs \<Longrightarrow> result (xs @ ys) d st i = result xs d st i"
  by (induction i) (simp_all add: nth_append split: prod.splits outcome.splits)

lemma reduce_result:
  "reduce (\<lambda>r l. invoke (cb l) r) d ls st = result ls d st (length ls)"
proof (induction ls rule: rev_induct)
  case Nil
  show ?case by simp
next
  case (snoc x xs)
  show ?case
    by (simp add: reduce_snoc snoc.IH result_append split: prod.splits outcome.splits)
qed


lemma scenario_emitSync: "fst (emitSync ''x'' 3 scenario) = Return 8"
  by (simp add: emitSync_def scenario_def on_def constructor_def list_def js_sort_def Let_def returning_def)

lemma invoke_returning: "invoke (returning g) d st = (Return (g d), st)"
  by (simp add: returning_def)

lemma reduce_returning:
  "map cb ls = map returning gs \<Longrightarrow>
   reduce (\<lambda>r l. invoke (cb l) r) d ls st = (Return (foldl (\<lambda>r g. g r) d gs), st)"
proof (induction ls arbitrary: gs d)
  case Nil
  then show ?case by simp
next
  case (Cons l ls)
  then obtain g gs' where gs: "gs = g # gs'" and l: "cb l = returning g"
    and rest: "map cb ls = map returning gs'"
    by (cases gs) auto
  show ?case
    using Cons.IH [OF rest] by (simp add: gs l invoke_returning)
qed

lemma js_map_returning:
  "map cb ls = map returning gs \<Longrightarrow>
   js_map (\<lambda>l. invoke (cb l) d) ls st = (Return (map (\<lambda>g. g d) gs), st)"
proof (induction ls arbitrary: gs)
  case Nil
  then show ?case by simp
next
  case (Cons l ls)
  then obtain g gs' where gs: "gs = g # gs'" and l: "cb l = returning g"
    and rest: "map cb ls = map returning gs'"
    by (cases gs) auto
  show ?case
    using Cons.IH [OF rest] by (simp add: gs l invoke_returning)
qed

lemma scenario_list:
  "map cb (list ''x'' True scenario) = map returning [\<lambda>d. d + 1, \<lambda>d. d * 2]"
  by (simp add: scenario_def on_def constructor_def list_def js_sort_def Let_def)

text \<open>
  Claim C5. \<^verbatim>\<open>emitSync(e, data)\<close> is the left fold of the callbacks of
  \<^verbatim>\<open>list(e, true)\<close> over the data: result 0 is the data, result \<open>i\<close> is what the
  callback of the \<open>i\<close>-th listener makes of result \<open>i - 1\<close>, and the last result is
  returned. When the callbacks are the functions \<open>gs\<close>, which return and touch nothing,
  this is \<open>foldl\<close> of their application over the data. In the scenario,
  \<^verbatim>\<open>emitSync("x", 3)\<close> returns 8.
\<close>

theorem emitSync_fold:
  "emitSync e d st = result (list e True st) d st (length (list e True st))
   \<and> (map cb (list e True st) = map returning gs \<longrightarrow>
        emitSync e d st = (Return (foldl (\<lambda>r g. g r) d gs), st))
   \<and> fst (emitSync ''x'' 3 scenario) = Return 8"
proof -
  have a: "emitSync e d st = result (list e True st) d st (length (list e True st))"
    by (simp add: emitSync_def reduce_result)
  have b: "map cb (list e True st) = map returning gs \<longrightarrow>
        emitSync e d st = (Return (foldl (\<lambda>r g. g r) d gs), st)"
    by (simp add: emitSync_def reduce_returning)
  show ?thesis
    using a b scenario_emitSync by blast
qed

theorem emitSync_fold_witness:
  "map cb (list ''x'' True scenario) = map returning [\<lambda>d. d + 1, \<lambda>d. d * 2]
   \<and> emitSync ''x'' 3 scenario = (Return 8, scenario)"
proof -
  have "emitSync ''x'' 3 scenario
      = (Return (foldl (\<lambda>r g. g r) 3 [\<lambda>d. d + 1, \<lambda>d. d * 2]), scenario)"
    using scenario_list emitSync_fold [of "''x''" 3 scenario "[\<lambda>d. d + 1, \<lambda>d. d * 2]"]
    by blast
  then show ?thesis
    using scenario_list by simp
qed

lemma state_before_Cons:
  "state_before (x # xs) d st (Suc i) = state_before xs d (snd (invoke (cb x) d st)) i"
  by (induction i) simp_all

lemma answer_Cons:
  "answer (x # xs) d st (Suc i) = answer xs d (snd (invoke (cb x) d st)) i"
  by (simp add: answer_def state_before_Cons del: state_before.simps)

lemma answer_0: "answer (x # xs) d st 0 = fst (invoke (cb x) d st)"
  by (simp add: answer_def)

lemma upt_shift: "map g [0..<Suc n] = g 0 # map (\<lambda>i. g (Suc i)) [0..<n]"
  by (simp add: upt_conv_Cons map_Suc_upt [symmetric] del: upt_Suc)

lemma js_map_collect:
  "fst (js_map (\<lambda>l. invoke (cb l) d) ls st) = collect (map (answer ls d st) [0..<length ls])"
proof (induction ls arbitrary: st)
  case Nil
  show ?case by simp
next
  case (Cons x xs)
  obtain r st' where inv: "invoke (cb x) d st = (r, st')"
    by (cases "invoke (cb x) d st")
  obtain rr st'' where rest: "js_map (\<lambda>l. invoke (cb l) d) xs st' = (rr, st'')"
    by (cases "js_map (\<lambda>l. invoke (cb l) d) xs st'")
  have ih: "rr = collect (map (answer xs d st') [0..<length xs])"
    using Cons.IH [of st'] rest by simp
  have shift: "map (answer (x # xs) d st) [0..<length (x # xs)]
      = r # map (answer xs d st') [0..<length xs]"
    using inv by (simp add: upt_shift answer_Cons answer_0 del: upt_Suc)
  show ?case
  proof (cases r)
    case (Return v)
    then show ?thesis
      unfolding shift using inv rest ih by (simp split: outcome.splits)
  next
    case (Throw e)
    then show ?thesis
      unfolding shift using inv by simp
  qed
qed

lemma js_map_mapped:
  "js_map (\<lambda>l s. case f l s of (Return r, s') \<Rightarrow> (Return (h r), s') | (Throw e, s') \<Rightarrow> (Throw e, s')) ls st
   = (case js_map f ls st of (Return rs, st') \<Rightarrow> (Return (map h rs), st') | (Throw e, st') \<Rightarrow> (Throw e, st'))"
  by (induction ls arbitrary: st) (auto split: prod.splits outcome.splits)

lemma those_Some: "those (map Some vs) = Some vs"
  by (induction vs) simp_all

lemma those_places:
  assumes "length vs = n" and "\<forall>j<n. vals j = Some (vs ! j)"
  shows "those (map vals [0..<n]) = Some vs"
proof -
  have "map vals [0..<n] = map Some vs"
    using assms by (intro nth_equalityI) simp_all
  then show ?thesis
    by (simp add: those_Some)
qed

text \<open>
  Fulfilments in any order of distinct places: when they fill exactly the places that
  were empty, the last of them fulfils the promise of all with the values in the order
  of the places.
\<close>

lemma fold_all_step_fulfilled:
  assumes "evs \<noteq> []" and "distinct (map fst evs)" and "length vs = n"
    and "\<forall>(i, p) \<in> set evs. i < n \<and> settles_to p = Return (vs ! i)"
    and "\<forall>j<n. vals j = Some (vs ! j) \<or> j \<in> fst ` set evs"
  shows "snd (snd (fold (all_step n) evs (vals, length evs, None)))
      = Some (Deferred (settles_at (snd (last evs))) (Return vs))"
  using assms
proof (induction evs arbitrary: vals)
  case Nil
  then show ?case by simp
next
  case (Cons ev evs)
  obtain i t out where ev: "ev = (i, Deferred t out)"
    by (cases ev, cases "snd ev") auto
  have out: "out = Return (vs ! i)" and i: "i < n"
    using Cons.prems(4) ev by auto
  let ?vals = "vals(i \<mapsto> vs ! i)"
  show ?case
  proof (cases "evs = []")
    case True
    have "\<forall>j<n. ?vals j = Some (vs ! j)"
      using Cons.prems(5) True ev by auto
    then have "those (map ?vals [0..<n]) = Some vs"
      using Cons.prems(3) by (intro those_places) simp_all
    then show ?thesis
      using True by (simp add: ev out)
  next
    case False
    have places: "\<forall>j<n. ?vals j = Some (vs ! j) \<or> j \<in> fst ` set evs"
      using Cons.prems(5) ev by auto
    have rest: "snd (snd (fold (all_step n) evs (?vals, length evs, None)))
        = Some (Deferred (settles_at (snd (last evs))) (Return vs))"
      using False Cons.prems(2,3,4) places by (intro Cons.IH) auto
    show ?thesis
      using False rest by (simp add: ev out)
  qed
qed

lemma completion_order_set: "set (completion_order ps) = set (zip [0..<length ps] ps)"
  by (simp add: completion_order_def)

lemma completion_order_fst: "mset (map fst (completion_order ps)) = mset [0..<length ps]"
proof -
  have "mset (completion_order ps) = mset (zip [0..<length ps] ps)"
    by (simp add: completion_order_def)
  then have "mset (map fst (completion_order ps)) = mset (map fst (zip [0..<length ps] ps))"
    by (metis mset_map)
  then show ?thesis
    by simp
qed

lemma completion_order_distinct: "distinct (map fst (completion_order ps))"
  using completion_order_fst [of ps] by (metis distinct_upt mset_eq_imp_distinct_iff)

lemma completion_order_length: "length (completion_order ps) = length ps"
  by (simp add: completion_order_def)

lemma last_sorted_Max:
  "sorted (map k xs) \<Longrightarrow> xs \<noteq> [] \<Longrightarrow> (k (last xs) :: nat) = Max (insert 0 (k ` set xs))"
proof (induction xs)
  case Nil
  then show ?case by simp
next
  case (Cons x xs)
  show ?case
  proof (cases "xs = []")
    case True
    then show ?thesis by simp
  next
    case False
    have "k (last xs) = Max (insert 0 (k ` set xs))"
      using Cons False by simp
    moreover have "k x \<le> k (last xs)"
      using Cons.prems(1) False by simp
    ultimately show ?thesis
      using False by (simp add: max_def insert_commute)
  qed
qed

lemma completion_order_last:
  assumes "ps \<noteq> []"
  shows "settles_at (snd (last (completion_order ps))) = Max (insert 0 (settles_at ` set ps))"
proof -
  let ?k = "\<lambda>(i, p). settles_at p"
  have ne: "completion_order ps \<noteq> []"
    using assms completion_order_length [of ps] by auto
  have "sorted (map ?k (completion_order ps))"
    by (simp add: completion_order_def)
  then have "?k (last (completion_order ps)) = Max (insert 0 (?k ` set (completion_order ps)))"
    using ne by (rule last_sorted_Max)
  moreover have "?k ` set (completion_order ps) = settles_at ` set ps"
  proof -
    have "?k ` set (completion_order ps) = settles_at ` snd ` set (zip [0..<length ps] ps)"
      by (force simp: completion_order_set)
    also have "snd ` set (zip [0..<length ps] ps) = set ps"
      by (metis length_upt map_snd_zip minus_nat.diff_0 set_map)
    finally show ?thesis .
  qed
  ultimately show ?thesis
    by (simp add: case_prod_unfold)
qed

lemma promise_all_fulfilled:
  assumes "map settles_to ps = map Return vs"
  shows "promise_all ps = Some (Deferred (Max (insert 0 (settles_at ` set ps))) (Return vs))"
proof (cases "ps = []")
  case True
  then show ?thesis
    using assms by (simp add: promise_all_def completion_order_def)
next
  case False
  let ?evs = "completion_order ps"
  have len: "length vs = length ps"
    using assms by (metis length_map)
  have ne: "?evs \<noteq> []"
    using False completion_order_length [of ps] by auto
  have each: "\<forall>(i, p) \<in> set ?evs. i < length ps \<and> settles_to p = Return (vs ! i)"
  proof (clarify)
    fix i p
    assume "(i, p) \<in> set ?evs"
    then have "(i, p) \<in> set (zip [0..<length ps] ps)"
      by (simp add: completion_order_set)
    then have i: "i < length ps" and p: "p = ps ! i"
      by (auto simp: set_zip)
    have "map settles_to ps ! i = map Return vs ! i"
      using assms by simp
    then have "settles_to (ps ! i) = Return (vs ! i)"
      using i len by simp
    then show "i < length ps \<and> settles_to p = Return (vs ! i)"
      using i p by simp
  qed
  have all: "\<forall>j<length ps. Map.empty j = Some (vs ! j) \<or> j \<in> fst ` set ?evs"
  proof (intro allI impI)
    fix j
    assume "j < length ps"
    then have "j \<in> set (map fst ?evs)"
      using completion_order_fst [of ps] by (metis atLeast0LessThan lessThan_iff mset_eq_setD set_upt)
    then show "Map.empty j = Some (vs ! j) \<or> j \<in> fst ` set ?evs"
      by simp
  qed
  have "snd (snd (fold (all_step (length ps)) ?evs (Map.empty, length ?evs, None)))
      = Some (Deferred (settles_at (snd (last ?evs))) (Return vs))"
    using ne completion_order_distinct len each all by (rule fold_all_step_fulfilled)
  then show ?thesis
    using False by (simp add: promise_all_def completion_order_length completion_order_last)
qed

text \<open>A rejection settles the promise of all, the earliest one first.\<close>

lemma promise_all_rejected:
  "promise_all [Deferred 5 (Return (1::int)), Deferred 2 (Throw (Thrown ''late'')),
                Deferred 1 (Throw (Thrown ''early''))]
     = Some (Deferred 1 (Throw (Thrown ''early'')))"
  by (simp add: promise_all_def completion_order_def)

lemma scenario_parallel: "fst (emitParallelSync ''x'' 3 scenario) = Return [4, 6]"
  by (simp add: emitParallelSync_def scenario_def on_def constructor_def list_def js_sort_def Let_def returning_def)

text \<open>
  Claim C6. The parallel emissions hand the same original data to every matching
  listener and return the results in the order of \<^verbatim>\<open>list(e, true)\<close>: the sequence of
  \<^verbatim>\<open>emitParallelSync\<close> is the sequence of the answers of the listeners to the data
  (each of the functions \<open>gs\<close> applied to the data, when these are the callbacks).
  \<^verbatim>\<open>emitParallel\<close> calls the callbacks in the same way and returns the promise of all
  their answers; when the answer of each listener is, or is a promise fulfilled with,
  the value at its place in \<open>vs\<close>, that promise is fulfilled with \<open>vs\<close>, in the order of
  the list whatever the order in which the promises settle, at the tick of the last of
  them. In the scenario, \<^verbatim>\<open>emitParallelSync("x", 3)\<close> returns \<open>[4, 6]\<close>.
\<close>

theorem parallel_results:
  "fst (emitParallelSync e d st)
     = collect (map (answer (list e True st) d st) [0..<length (list e True st)])
   \<and> (map cb (list e True st) = map returning gs \<longrightarrow>
        emitParallelSync e d st = (Return (map (\<lambda>g. g d) gs), st))
   \<and> emitParallel e v sa
     = (case emitParallelSync e v sa of
          (Return rs, sa') \<Rightarrow> (Return (promise_all (map promise_resolve rs)), sa')
        | (Throw x, sa') \<Rightarrow> (Throw x, sa'))
   \<and> (map (\<lambda>r. settles_to (promise_resolve r)) rs = map Return vs \<longrightarrow>
        promise_all (map promise_resolve rs)
          = Some (Deferred (Max (insert 0 ((\<lambda>r. settles_at (promise_resolve r)) ` set rs)))
                    (Return vs)))
   \<and> (emitParallelSync e v sa = (Return rs, sa')
        \<and> map (\<lambda>r. settles_to (promise_resolve r)) rs = map Return vs \<longrightarrow>
        emitParallel e v sa
          = (Return (Some (Deferred (Max (insert 0 ((\<lambda>r. settles_at (promise_resolve r)) ` set rs)))
                            (Return vs))), sa'))
   \<and> fst (emitParallelSync ''x'' 3 scenario) = Return [4, 6]"
proof -
  have a: "fst (emitParallelSync e d st)
     = collect (map (answer (list e True st) d st) [0..<length (list e True st)])"
    by (simp add: emitParallelSync_def js_map_collect)
  have p: "map cb (list e True st) = map returning gs \<longrightarrow>
        emitParallelSync e d st = (Return (map (\<lambda>g. g d) gs), st)"
    by (simp add: emitParallelSync_def js_map_returning)
  have b: "emitParallel e v sa
     = (case emitParallelSync e v sa of
          (Return rs, sa') \<Rightarrow> (Return (promise_all (map promise_resolve rs)), sa')
        | (Throw x, sa') \<Rightarrow> (Throw x, sa'))"
    by (simp add: emitParallelSync_def emitParallel_def js_map_mapped
        split: prod.splits outcome.splits)
  have c: "map (\<lambda>r. settles_to (promise_resolve r)) rs = map Return vs \<longrightarrow>
        promise_all (map promise_resolve rs)
          = Some (Deferred (Max (insert 0 ((\<lambda>r. settles_at (promise_resolve r)) ` set rs)))
                    (Return vs))"
    using promise_all_fulfilled [of "map promise_resolve rs" vs] by (simp add: comp_def image_image)
  have d: "emitParallelSync e v sa = (Return rs, sa')
        \<and> map (\<lambda>r. settles_to (promise_resolve r)) rs = map Return vs \<longrightarrow>
        emitParallel e v sa
          = (Return (Some (Deferred (Max (insert 0 ((\<lambda>r. settles_at (promise_resolve r)) ` set rs)))
                            (Return vs))), sa')"
    using b c by simp
  show ?thesis
    using a p b c d scenario_parallel by blast
qed

lemma slow_first_sync:
  "emitParallelSync ''x'' (Plain 3) slow_first
     = (Return [Promised (Deferred 5 (Return 4)), Promised (Deferred 1 (Return 6))], slow_first)"
  by (simp add: emitParallelSync_def slow_first_def on_def constructor_def list_def js_sort_def
      Let_def deferring_def)

theorem parallel_results_witness:
  "map cb (list ''x'' True scenario) = map returning [\<lambda>d. d + 1, \<lambda>d. d * 2]
   \<and> emitParallelSync ''x'' 3 scenario = (Return [4, 6], scenario)
   \<and> emitParallelSync ''x'' (Plain 3) slow_first
       = (Return [Promised (Deferred 5 (Return 4)), Promised (Deferred 1 (Return 6))], slow_first)
   \<and> map fst (completion_order
         (map promise_resolve [Promised (Deferred 5 (Return 4)), Promised (Deferred 1 (Return (6::int)))]))
       = [1, 0]
   \<and> emitParallel ''x'' (Plain 3) slow_first = (Return (Some (Deferred 5 (Return [4, 6]))), slow_first)"
proof -
  let ?rs = "[Promised (Deferred 5 (Return 4)), Promised (Deferred 1 (Return (6::int)))]"
  note t = parallel_results [where e = "''x''" and d = 3 and st = scenario
      and gs = "[\<lambda>d. d + 1, \<lambda>d. d * 2]" and v = "Plain 3" and sa = slow_first
      and rs = ?rs and vs = "[4, 6]" and sa' = slow_first]
  have "emitParallelSync ''x'' 3 scenario
      = (Return (map (\<lambda>g. g 3) [\<lambda>d. d + 1, \<lambda>d. d * 2]), scenario)"
    using scenario_list t by blast
  then have sync: "emitParallelSync ''x'' 3 scenario = (Return [4, 6], scenario)"
    by simp
  have fulfilled: "map (\<lambda>r. settles_to (promise_resolve r)) ?rs = map Return [4, 6]"
    by simp
  have "emitParallel ''x'' (Plain 3) slow_first
      = (Return (Some (Deferred (Max (insert 0 ((\<lambda>r. settles_at (promise_resolve r)) ` set ?rs)))
                        (Return [4, 6]))), slow_first)"
    using t slow_first_sync fulfilled by blast
  then have all: "emitParallel ''x'' (Plain 3) slow_first
      = (Return (Some (Deferred 5 (Return [4, 6]))), slow_first)"
    by simp
  have order: "map fst (completion_order (map promise_resolve ?rs)) = [1, 0]"
    by (simp add: completion_order_def)
  show ?thesis
    using scenario_list sync slow_first_sync order all by simp
qed

text \<open>
  Claim C10. When no listener has the mask \<open>e\<close>, \<^verbatim>\<open>emitSync(e, data)\<close> returns the
  data, the promise of \<^verbatim>\<open>emit(e, data)\<close> settles to the data, \<^verbatim>\<open>emitParallelSync\<close>
  returns the empty sequence and the promise of \<^verbatim>\<open>emitParallel\<close> is fulfilled with it,
  and the state of the bus is the same after each of them.
\<close>

theorem no_listener_emission:
  "(list e False st = [] \<longrightarrow>
      emitSync e d st = (Return d, st)
      \<and> emitParallelSync e d st = (Return [], st))
   \<and> (list e False sa = [] \<longrightarrow>
      emit e v sa = Resolve v
      \<and> settle (emit e (Plain x) sa) sa = (Return x, sa)
      \<and> emitParallel e v sa = (Return (Some (Deferred 0 (Return []))), sa))"
proof -
  have sync: "list e False st = [] \<longrightarrow>
      emitSync e d st = (Return d, st) \<and> emitParallelSync e d st = (Return [], st)"
    by (simp add: emitSync_def emitParallelSync_def list_def js_sort_def)
  have async: "list e False sa = [] \<longrightarrow>
      emit e v sa = Resolve v
      \<and> settle (emit e (Plain x) sa) sa = (Return x, sa)
      \<and> emitParallel e v sa = (Return (Some (Deferred 0 (Return []))), sa)"
    by (simp add: emit_def emitParallel_def promise_all_def completion_order_def list_def
        js_sort_def)
  show ?thesis
    using sync async by blast
qed

theorem no_listener_emission_witness:
  "list ''y'' False scenario = []
   \<and> emitSync ''y'' 3 scenario = (Return 3, scenario)
   \<and> emitParallelSync ''y'' 3 scenario = (Return [], scenario)
   \<and> list ''y'' False slow_first = []
   \<and> emit ''y'' (Plain 3) slow_first = Resolve (Plain 3)
   \<and> settle (emit ''y'' (Plain 3) slow_first) slow_first = (Return 3, slow_first)
   \<and> emitParallel ''y'' (Plain 3) slow_first = (Return (Some (Deferred 0 (Return []))), slow_first)"
proof -
  have h: "list ''y'' False scenario = []"
    by (simp add: list_def scenario_def on_def constructor_def Let_def)
  have k: "list ''y'' False slow_first = []"
    by (simp add: list_def slow_first_def on_def constructor_def Let_def)
  show ?thesis
    using h k no_listener_emission [where e = "''y''" and st = scenario and d = 3
        and sa = slow_first and v = "Plain 3" and x = 3]
    by simp
qed

subsection \<open>\<^verbatim>\<open>off\<close>\<close>

lemma off_filter_never: "strict_eq (js_not (JStr m)) (JStr e) = False"
  by (simp add: js_not_def)

lemma off_listeners: "listeners (snd (off e st)) = []"
  by (simp add: off_def js_not_def Let_def)

text \<open>
  Claim C1 (\<^verbatim>\<open>off(e)\<close> removes exactly the listeners whose mask is \<open>e\<close>, and every
  listener with another mask stays registered), evaluated on the code: on a bus with a
  listener on \<^verbatim>\<open>"a"\<close> and a listener on \<^verbatim>\<open>"b"\<close>, \<^verbatim>\<open>off("a")\<close> removes the
  listener on \<^verbatim>\<open>"b"\<close> as well.
\<close>

theorem off_removes_other_masks:
  "has ''b'' two_masks \<and> \<not> has ''b'' (snd (off ''a'' two_masks))"
  by (simp add: has_def list_def off_def js_not_def two_masks_def on_def constructor_def Let_def)

text \<open>
  Claim C2 says that \<^verbatim>\<open>off(e)\<close> leaves the listeners as they were. It does not: on
  the bus with listeners on \<^verbatim>\<open>"a"\<close> and \<^verbatim>\<open>"b"\<close>, \<^verbatim>\<open>off("a")\<close> removes the listener
  on \<^verbatim>\<open>"a"\<close>, and \<^verbatim>\<open>off("c")\<close> leaves none.
\<close>

theorem off_not_inert:
  "has ''a'' two_masks \<and> \<not> has ''a'' (snd (off ''a'' two_masks))
   \<and> listeners two_masks \<noteq> [] \<and> listeners (snd (off ''c'' two_masks)) = []"
  by (simp add: has_def list_def off_def js_not_def two_masks_def on_def constructor_def Let_def)

text \<open>
  Claim C2, amended. \<^verbatim>\<open>off(e)\<close> changes nothing but the listener collection, which
  it replaces by the array it returns; it adds and reorders no listener (what is
  registered afterwards was registered before, in the same order), and no listener with
  the mask \<open>e\<close> is registered afterwards.
\<close>

theorem off_frame:
  "snd (off e st) = st\<lparr>listeners := fst (off e st)\<rparr>
   \<and> subseq (listeners (snd (off e st))) (listeners st)
   \<and> list e False (snd (off e st)) = []"
  by (simp add: off_def Let_def list_def js_not_def)

subsection \<open>Installing plugins\<close>

lemma get_plugin_own:
  "key \<notin> set object_prototype_keys \<Longrightarrow>
   get_plugin st key = (case plugins st key of None \<Rightarrow> Undefined | Some d \<Rightarrow> Own d)"
  by (simp add: get_plugin_def split: option.splits)

lemma check_dependencies_satisfied:
  assumes "\<forall>k \<in> fst ` set deps. k \<notin> set object_prototype_keys"
    and "list_all (satisfied st) deps"
  shows "check_dependencies st n deps = None"
  using assms
proof (induction deps)
  case Nil
  show ?case by simp
next
  case (Cons dep deps)
  obtain k v where dep: "dep = (k, v)"
    by (cases dep)
  have k: "k \<notin> set object_prototype_keys"
    using Cons.prems(1) dep by simp
  obtain d where d: "plugins st k = Some d" and ok: "\<not> compareVersion v (version d) > 0"
    using Cons.prems(2) dep by (auto simp: satisfied_def split: option.splits)
  have "check_dependencies st n deps = None"
    using Cons by simp
  then show ?case
    using d ok by (simp add: dep get_plugin_own [OF k])
qed

lemma check_dependencies_append:
  assumes "\<forall>k \<in> fst ` set pre. k \<notin> set object_prototype_keys"
    and "list_all (satisfied st) pre"
  shows "check_dependencies st n (pre @ rest) = check_dependencies st n rest"
  using assms
proof (induction pre)
  case Nil
  show ?case by simp
next
  case (Cons dep pre)
  obtain k v where dep: "dep = (k, v)"
    by (cases dep)
  have k: "k \<notin> set object_prototype_keys"
    using Cons.prems(1) dep by simp
  obtain d where d: "plugins st k = Some d" and ok: "\<not> compareVersion v (version d) > 0"
    using Cons.prems(2) dep by (auto simp: satisfied_def split: option.splits)
  have "check_dependencies st n (pre @ rest) = check_dependencies st n rest"
    using Cons by simp
  then show ?case
    using d ok by (simp add: dep get_plugin_own [OF k])
qed

lemma validate_duplicate:
  "plugins st (name d) \<noteq> None \<Longrightarrow> validate st d = Some (DuplicatePlugin (name d))"
  by (auto simp: validate_def get_plugin_def split: option.splits)

lemma validate_free:
  "name d \<notin> set object_prototype_keys \<Longrightarrow> plugins st (name d) = None \<Longrightarrow>
   validate st d = check_dependencies st (name d) (dependencies d)"
  by (simp add: validate_def get_plugin_def)

text \<open>
  Claim C3, amended. For a plugin whose name and dependency names are not names that
  every object inherits: \<^verbatim>\<open>plugin(pl, options)\<close> fails with \<open>DuplicatePlugin\<close> and an
  unchanged bus when a descriptor is recorded under the name of \<open>pl\<close>; otherwise, at the
  first dependency in order that is not satisfied, it fails with \<open>MissingDependency\<close>
  when no descriptor is recorded under the dependency's name and with \<open>UnmetVersion\<close>
  when one is recorded and \<^verbatim>\<open>compareVersion(minVersion, installed version) > 0\<close>; and
  when none of these hold the body is called, and the install succeeds and records the
  descriptor if the body returns, and fails with the failure of the body if it throws.
\<close>

theorem plugin_failures:
  assumes own: "name (pl_plugin pl) \<notin> set object_prototype_keys"
    and deps_own: "\<forall>k \<in> fst ` set (dependencies (pl_plugin pl)). k \<notin> set object_prototype_keys"
  shows
    "(plugins st (name (pl_plugin pl)) \<noteq> None \<longrightarrow>
        plugin pl opts st = (Throw (DuplicatePlugin (name (pl_plugin pl))), st))
     \<and> (plugins st (name (pl_plugin pl)) = None
        \<and> dependencies (pl_plugin pl) = pre @ dep # post \<and> list_all (satisfied st) pre
        \<and> plugins st (fst dep) = None \<longrightarrow>
        plugin pl opts st = (Throw (MissingDependency (fst dep) (name (pl_plugin pl))), st))
     \<and> (plugins st (name (pl_plugin pl)) = None
        \<and> dependencies (pl_plugin pl) = pre @ dep # post \<and> list_all (satisfied st) pre
        \<and> plugins st (fst dep) = Some d \<and> compareVersion (snd dep) (version d) > 0 \<longrightarrow>
        plugin pl opts st
          = (Throw (UnmetVersion (fst dep) (snd dep) (name (pl_plugin pl)) (version d)), st))
     \<and> (plugins st (name (pl_plugin pl)) = None
        \<and> list_all (satisfied st) (dependencies (pl_plugin pl)) \<longrightarrow>
        plugin pl opts st
          = (case pl_call pl opts st of
               (Throw e, st') \<Rightarrow> (Throw e, st')
             | (Return u, st') \<Rightarrow>
                 (Return (), st'\<lparr>plugins := (plugins st')(name (pl_plugin pl) \<mapsto> pl_plugin pl)\<rparr>)))"
proof (intro conjI impI)
  assume "plugins st (name (pl_plugin pl)) \<noteq> None"
  then show "plugin pl opts st = (Throw (DuplicatePlugin (name (pl_plugin pl))), st)"
    by (simp add: plugin_def validate_duplicate)
next
  assume a: "plugins st (name (pl_plugin pl)) = None
    \<and> dependencies (pl_plugin pl) = pre @ dep # post \<and> list_all (satisfied st) pre
    \<and> plugins st (fst dep) = None"
  have pre: "\<forall>k \<in> fst ` set pre. k \<notin> set object_prototype_keys"
    using deps_own a by auto
  have k: "fst dep \<notin> set object_prototype_keys"
    using deps_own a by auto
  have "check_dependencies st (name (pl_plugin pl)) (pre @ dep # post)
      = Some (MissingDependency (fst dep) (name (pl_plugin pl)))"
    using a k by (cases dep) (simp add: check_dependencies_append [OF pre] get_plugin_own)
  then show "plugin pl opts st = (Throw (MissingDependency (fst dep) (name (pl_plugin pl))), st)"
    using a by (simp add: plugin_def validate_free [OF own])
next
  assume a: "plugins st (name (pl_plugin pl)) = None
    \<and> dependencies (pl_plugin pl) = pre @ dep # post \<and> list_all (satisfied st) pre
    \<and> plugins st (fst dep) = Some d \<and> compareVersion (snd dep) (version d) > 0"
  have pre: "\<forall>k \<in> fst ` set pre. k \<notin> set object_prototype_keys"
    using deps_own a by auto
  have k: "fst dep \<notin> set object_prototype_keys"
    using deps_own a by auto
  have "check_dependencies st (name (pl_plugin pl)) (pre @ dep # post)
      = Some (UnmetVersion (fst dep) (snd dep) (name (pl_plugin pl)) (version d))"
    using a k by (cases dep) (simp add: check_dependencies_append [OF pre] get_plugin_own)
  then show "plugin pl opts st
      = (Throw (UnmetVersion (fst dep) (snd dep) (name (pl_plugin pl)) (version d)), st)"
    using a by (simp add: plugin_def validate_free [OF own])
next
  assume a: "plugins st (name (pl_plugin pl)) = None
    \<and> list_all (satisfied st) (dependencies (pl_plugin pl))"
  have "validate st (pl_plugin pl) = None"
    using a by (simp add: validate_free [OF own] check_dependencies_satisfied [OF deps_own])
  then show "plugin pl opts st
      = (case pl_call pl opts st of
           (Throw e, st') \<Rightarrow> (Throw e, st')
         | (Return u, st') \<Rightarrow>
             (Return (), st'\<lparr>plugins := (plugins st')(name (pl_plugin pl) \<mapsto> pl_plugin pl)\<rparr>))"
    by (simp add: plugin_def)
qed


lemma with_base_eq:
  "with_base = snd (on ''x'' (returning (\<lambda>d. d + 1)) None (constructor ()))
      \<lparr>plugins := [''base'' \<mapsto> pl_plugin base_plugin]\<rparr>"
  by (simp add: with_base_def plugin_def validate_def get_plugin_def base_plugin_def
      createPlugin_def constructor_def object_prototype_keys_def on_def Let_def)

lemma with_base_plugins:
  "plugins with_base ''ext'' = None"
  "plugins with_base ''base'' = Some (pl_plugin base_plugin)"
  by (simp_all add: with_base_eq on_def Let_def)

lemma needs_base_fields:
  "name (pl_plugin (needs_base v)) = ''ext''"
  "dependencies (pl_plugin (needs_base v)) = [(''base'', v)]"
  "pl_call (needs_base v) = (\<lambda>opts st. (Return (), st))"
  by (simp_all add: needs_base_def createPlugin_def)

lemma base_plugin_fields:
  "name (pl_plugin base_plugin) = ''base''"
  "version (pl_plugin base_plugin) = ''1.5.0''"
  "dependencies (pl_plugin base_plugin) = []"
  by (simp_all add: base_plugin_def createPlugin_def)

lemma compare_base:
  "compareVersion ''2.0.0'' ''1.5.0'' > 0"
  "\<not> compareVersion ''1.2'' ''1.5.0'' > 0"
  unfolding compareVersion_def Let_def compareVersion_loop_unfold
  by (simp_all add: split_def parseInt_def is_white_def is_digit_def digit_val_def to_double_exact)

theorem plugin_failures_witness:
  "name (pl_plugin base_plugin) \<notin> set object_prototype_keys
   \<and> dependencies (pl_plugin base_plugin) = []
   \<and> plugins with_base (name (pl_plugin base_plugin)) \<noteq> None
   \<and> plugin base_plugin () with_base = (Throw (DuplicatePlugin ''base''), with_base)
   \<and> name (pl_plugin (needs_base ''2.0.0'')) \<notin> set object_prototype_keys
   \<and> dependencies (pl_plugin (needs_base ''2.0.0'')) = [(''base'', ''2.0.0'')]
   \<and> ''base'' \<notin> set object_prototype_keys
   \<and> plugins (constructor () :: (int, unit) bus) ''ext'' = None
   \<and> plugins (constructor () :: (int, unit) bus) ''base'' = None
   \<and> plugin (needs_base ''2.0.0'') () (constructor ())
       = (Throw (MissingDependency ''base'' ''ext''), constructor ())
   \<and> plugins with_base ''ext'' = None
   \<and> plugins with_base ''base'' = Some (pl_plugin base_plugin)
   \<and> compareVersion ''2.0.0'' (version (pl_plugin base_plugin)) > 0
   \<and> plugin (needs_base ''2.0.0'') () with_base
       = (Throw (UnmetVersion ''base'' ''2.0.0'' ''ext'' ''1.5.0''), with_base)
   \<and> list_all (satisfied with_base) (dependencies (pl_plugin (needs_base ''1.2'')))
   \<and> plugin (needs_base ''1.2'') () with_base
       = (Return (), with_base\<lparr>plugins := (plugins with_base)(''ext'' \<mapsto> pl_plugin (needs_base ''1.2''))\<rparr>)"
proof -
  have b1: "name (pl_plugin base_plugin) \<notin> set object_prototype_keys"
    by (simp add: base_plugin_fields object_prototype_keys_def)
  have b2: "\<forall>k \<in> fst ` set (dependencies (pl_plugin base_plugin)). k \<notin> set object_prototype_keys"
    by (simp add: base_plugin_fields)
  have n1: "name (pl_plugin (needs_base v)) \<notin> set object_prototype_keys" for v
    by (simp add: needs_base_fields object_prototype_keys_def)
  have n2: "\<forall>k \<in> fst ` set (dependencies (pl_plugin (needs_base v))). k \<notin> set object_prototype_keys" for v
    by (simp add: needs_base_fields object_prototype_keys_def)
  have e: "plugins (constructor () :: (int, unit) bus) k = None" for k
    by (simp add: constructor_def)
  have sat: "list_all (satisfied with_base) (dependencies (pl_plugin (needs_base ''1.2'')))"
    by (simp add: needs_base_fields satisfied_def with_base_plugins base_plugin_fields compare_base)
  have dup: "plugin base_plugin () with_base = (Throw (DuplicatePlugin ''base''), with_base)"
    using plugin_failures [OF b1 b2, where st = with_base and opts = "()"]
    by (simp add: with_base_plugins base_plugin_fields)
  have missing: "plugin (needs_base ''2.0.0'') () (constructor () :: (int, unit) bus)
       = (Throw (MissingDependency ''base'' ''ext''), constructor ())"
    using plugin_failures [OF n1 [of "''2.0.0''"] n2 [of "''2.0.0''"], where st = "constructor ()"
        and pre = "[]" and dep = "(''base'', ''2.0.0'')" and post = "[]" and opts = "()"]
    by (simp add: e needs_base_fields)
  have unmet: "plugin (needs_base ''2.0.0'') () with_base
       = (Throw (UnmetVersion ''base'' ''2.0.0'' ''ext'' ''1.5.0''), with_base)"
    using plugin_failures [OF n1 [of "''2.0.0''"] n2 [of "''2.0.0''"], where st = with_base
        and pre = "[]" and dep = "(''base'', ''2.0.0'')" and post = "[]" and opts = "()"
        and d = "pl_plugin base_plugin"]
    by (simp add: with_base_plugins needs_base_fields base_plugin_fields compare_base)
  have ok: "plugin (needs_base ''1.2'') () with_base
       = (Return (), with_base\<lparr>plugins := (plugins with_base)(''ext'' \<mapsto> pl_plugin (needs_base ''1.2''))\<rparr>)"
    using plugin_failures [OF n1 [of "''1.2''"] n2 [of "''1.2''"], where st = with_base
        and opts = "()"] sat
    by (simp add: with_base_plugins needs_base_fields)
  show ?thesis
    using b1 n1 e sat dup missing unmet ok
    by (simp add: with_base_plugins base_plugin_fields needs_base_fields compare_base
        object_prototype_keys_def)
qed

text \<open>
  Claim C3 says that the install succeeds whenever the name is free and every dependency
  is satisfied. A plugin without dependencies whose body throws fails on a new bus.
\<close>

theorem plugin_body_failure:
  "plugins (constructor () :: (int, unit) bus) (name (pl_plugin throwing_plugin)) = None
   \<and> dependencies (pl_plugin throwing_plugin) = []
   \<and> fst (plugin throwing_plugin () (constructor ())) = Throw (Thrown ''boom'')"
  by (simp add: plugin_def validate_def get_plugin_def throwing_plugin_def createPlugin_def
      constructor_def object_prototype_keys_def)




text \<open>
  A name that every object inherits counts as installed on a new bus, and as a
  dependency it makes the version check fail in \<^verbatim>\<open>compareVersion\<close>.
\<close>

lemma inherited_name_rejected:
  "fst (plugin (createPlugin ''constructor'' ''1.0.0'' [] (\<lambda>opts st. (Return (), st))) ()
         (constructor () :: (int, unit) bus))
     = Throw (DuplicatePlugin ''constructor'')"
  "fst (plugin (createPlugin ''p'' ''1.0.0'' [(''toString'', ''1.0.0'')] (\<lambda>opts st. (Return (), st))) ()
         (constructor () :: (int, unit) bus))
     = Throw TypeError"
  by (simp_all add: plugin_def validate_def get_plugin_def createPlugin_def constructor_def
      object_prototype_keys_def)

subsection \<open>\<^verbatim>\<open>once\<close>\<close>

lemma once_result:
  "once m f p st =
     (next_id st,
      st\<lparr>removed := (removed st)(next_id st := False), next_id := next_id st + 1,
         listeners := listeners st @ [\<lparr>mask = m, priority = (case p of None \<Rightarrow> 0 | Some n \<Rightarrow> n),
                          cb = OnceWrapper (next_id st) f, dollar_id = next_id st\<rparr>]\<rparr>)"
  by (simp add: once_def on_def Let_def)

text \<open>
  What the wrapper does on one call. While its variable \<^verbatim>\<open>removed\<close> is false it calls
  the function: when the function returns, the wrapper removes the listener, sets the
  variable and returns the result; when the function throws, the wrapper has done
  neither. Once the variable is true, the wrapper returns its input and changes nothing.
\<close>

lemma once_wrapper_call:
  "\<not> removed s i \<and> f d (world s) = (Return r, w) \<longrightarrow>
     fst (invoke (OnceWrapper i f) d s) = Return r
     \<and> listeners (snd (invoke (OnceWrapper i f) d s))
         = filter (\<lambda>l. dollar_id l \<noteq> i) (listeners s)
     \<and> removed (snd (invoke (OnceWrapper i f) d s)) i"
  "\<not> removed s i \<and> f d (world s) = (Throw e, w) \<longrightarrow>
     fst (invoke (OnceWrapper i f) d s) = Throw e
     \<and> listeners (snd (invoke (OnceWrapper i f) d s)) = listeners s
     \<and> \<not> removed (snd (invoke (OnceWrapper i f) d s)) i"
  "removed s i \<longrightarrow> invoke (OnceWrapper i f) d s = (Return d, s)"
  by (simp_all add: disposer_def Let_def)

text \<open>
  Claim C9 (the callback of a \<^verbatim>\<open>once\<close> listener executes at most once over any number
  of later emissions of its event), evaluated on the code: with a callback that counts
  its calls and throws, registered by \<^verbatim>\<open>once\<close> on a new bus, each of two emissions
  fails with the failure of the callback, the callback has then run twice, and the
  listener is still registered.
\<close>

theorem once_callback_runs_again:
  "fst (emitSync ''x'' 0 once_failing) = Throw (Thrown ''boom'')
   \<and> fst (emitSync ''x'' 0 (snd (emitSync ''x'' 0 once_failing))) = Throw (Thrown ''boom'')
   \<and> world (snd (emitSync ''x'' 0 (snd (emitSync ''x'' 0 once_failing)))) = 2
   \<and> runs 0 (snd (emitSync ''x'' 0 (snd (emitSync ''x'' 0 once_failing)))) = 2
   \<and> has ''x'' (snd (emitSync ''x'' 0 (snd (emitSync ''x'' 0 once_failing))))"
  by (simp add: emitSync_def has_def list_def js_sort_def once_failing_def once_result
      constructor_def failing_def runs_def)

text \<open>A callback that returns runs once: the second emission does not reach it.\<close>

lemma once_callback_runs_once:
  "fst (emitSync ''x'' 1 once_counting) = Return 2
   \<and> fst (emitSync ''x'' 5 (snd (emitSync ''x'' 1 once_counting))) = Return 5
   \<and> world (snd (emitSync ''x'' 5 (snd (emitSync ''x'' 1 once_counting)))) = 1
   \<and> runs 0 (snd (emitSync ''x'' 5 (snd (emitSync ''x'' 1 once_counting)))) = 1
   \<and> \<not> has ''x'' (snd (emitSync ''x'' 5 (snd (emitSync ''x'' 1 once_counting))))"
  by (simp add: emitSync_def has_def list_def js_sort_def once_counting_def once_result
      constructor_def counting_def runs_def disposer_def Let_def)

end
